theory Spec2Isabelle
  imports Complex_Main "HOL-Library.Sublist" "HOL-Library.Multiset"
begin

section \<open>JavaScript values\<close>

text \<open>
  The values the helpers handle are what \<open>JSON.parse\<close> produces, plus \<open>undefined\<close>
  and \<open>NaN\<close>, which the code itself creates (a missing property, a failed
  \<open>parseInt\<close>). An object is the list of its own enumerable properties in
  enumeration order. Numbers are modelled as integers: genomic positions and the values
  \<open>parseInt\<close> returns are integers, and a double holds every integer below
  \<open>2 ^ 53\<close> exactly. Beyond that JavaScript rounds where the model does not.
\<close>

datatype jsval =
    JUndefined
  | JNull
  | JBool bool
  | JNum int
  | JNaN
  | JStr string
  | JArr "jsval list"
  | JObj "(string \<times> jsval) list"

datatype js_error =
    TypeError
  | SyntaxError
  | FetchFailed
  | Error string

section \<open>Suffix lookup (src/lz-helpers.js, retrieveBySuffix)\<close>

text \<open>
  \<open>String.prototype.endsWith\<close>: the search string is compared with the substring of the
  same length that ends the receiver; a longer search string never matches.
\<close>

definition endsWith :: "string \<Rightarrow> string \<Rightarrow> bool" where
  "endsWith s searchString =
     (length searchString \<le> length s
      \<and> drop (length s - length searchString) s = searchString)"

text \<open>
  \<open>Object.entries\<close>: the own enumerable string-keyed properties. It throws on
  \<open>undefined\<close> and \<open>null\<close>, numbers and booleans have none, and a string or an array
  lists its indices.
\<close>

fun decimal_digits :: "nat \<Rightarrow> nat \<Rightarrow> string" where
  "decimal_digits 0 n = []"
| "decimal_digits (Suc fuel) n =
     (if n < 10 then [char_of (48 + n)]
      else decimal_digits fuel (n div 10) @ [char_of (48 + n mod 10)])"

definition nat_to_string :: "nat \<Rightarrow> string" where
  "nat_to_string n = decimal_digits (Suc n) n"

definition object_entries :: "jsval \<Rightarrow> js_error + (string \<times> jsval) list" where
  "object_entries v =
     (case v of
        JUndefined \<Rightarrow> Inl TypeError
      | JNull \<Rightarrow> Inl TypeError
      | JBool _ \<Rightarrow> Inr []
      | JNum _ \<Rightarrow> Inr []
      | JNaN \<Rightarrow> Inr []
      | JStr s \<Rightarrow> Inr (map (\<lambda>i. (nat_to_string i, JStr [s ! i])) [0..<length s])
      | JArr xs \<Rightarrow> Inr (map (\<lambda>i. (nat_to_string i, xs ! i)) [0..<length xs])
      | JObj kvs \<Rightarrow> Inr kvs)"

text \<open>
  \<^verbatim>\<open>
  function retrieveBySuffix(point_data, field_suffix) {
    const match = Object.entries(point_data)
      .find((item) => item[0].endsWith(field_suffix));
    return match ? match[1] : null;
  }
  \<close>
  \<open>find\<close> returns the first entry that satisfies the test, or \<open>undefined\<close>; an entry is
  an array and so always truthy.
\<close>

definition retrieveBySuffix :: "jsval \<Rightarrow> string \<Rightarrow> js_error + jsval" where
  "retrieveBySuffix point_data field_suffix =
     (case object_entries point_data of
        Inl e \<Rightarrow> Inl e
      | Inr entries \<Rightarrow>
          (case List.find (\<lambda>item. endsWith (fst item) field_suffix) entries of
             Some match \<Rightarrow> Inr (snd match)
           | None \<Rightarrow> Inr JNull))"

section \<open>Ranking the records of the variant view (src/lz-helpers.js, annotateData)\<close>

text \<open>
  The fields of a record that \<open>annotateData\<close> reads and writes. The distance is an
  integer; the three fields that can be ranked are finite numbers, on which comparison and
  absolute value are exact, so they are modelled as rationals. \<open>top_value_rank\<close> is
  absent until \<open>annotateData\<close> writes it. The header carries what \<open>getURL\<close> copied
  from the plot state.
\<close>

record qtl_record =
  tss_distance :: int
  log_pvalue :: rat
  beta :: rat
  pip :: rat
  top_value_rank :: "nat option"






text \<open>
  \<^verbatim>\<open>
  shallow_copy.forEach((value, index) => {
    value.top_value_rank = index + 1;
  });
  \<close>
  The copy shares its objects with \<open>records\<close>: it is a list of references, here the
  positions in \<open>records\<close>, and the assignment writes through a reference into the store.
\<close>

fun assign_ranks :: "nat list \<Rightarrow> nat \<Rightarrow> qtl_record list \<Rightarrow> qtl_record list" where
  "assign_ranks [] index store = store"
| "assign_ranks (ref # refs) index store =
     assign_ranks refs (index + 1)
       (store[ref := (store ! ref)\<lparr>top_value_rank := Some (index + 1)\<rparr>])"


section \<open>Reading properties and converting values\<close>

text \<open>
  A property read \<open>v.name\<close>. Reading from \<open>undefined\<close> or \<open>null\<close> throws a
  TypeError; an absent property reads as \<open>undefined\<close>. The names this code reads
  (\<open>data\<close>, \<open>gene_id\<close>, \<open>chrom\<close>, \<open>start\<close>, \<open>end\<close>, \<open>pos\<close>) are defined by no
  built-in prototype, so only an object's own properties can answer.
\<close>

definition get_prop :: "jsval \<Rightarrow> string \<Rightarrow> js_error + jsval" where
  "get_prop v name =
     (case v of
        JUndefined \<Rightarrow> Inl TypeError
      | JNull \<Rightarrow> Inl TypeError
      | JObj kvs \<Rightarrow> Inr (case map_of kvs name of Some x \<Rightarrow> x | None \<Rightarrow> JUndefined)
      | _ \<Rightarrow> Inr JUndefined)"

text \<open>The indexed read \<open>v[0]\<close>.\<close>

definition get_index0 :: "jsval \<Rightarrow> js_error + jsval" where
  "get_index0 v =
     (case v of
        JUndefined \<Rightarrow> Inl TypeError
      | JNull \<Rightarrow> Inl TypeError
      | JArr xs \<Rightarrow> Inr (case xs of [] \<Rightarrow> JUndefined | x # _ \<Rightarrow> x)
      | JStr s \<Rightarrow> Inr (case s of [] \<Rightarrow> JUndefined | c # _ \<Rightarrow> JStr [c])
      | JObj kvs \<Rightarrow> Inr (case map_of kvs ''0'' of Some x \<Rightarrow> x | None \<Rightarrow> JUndefined)
      | _ \<Rightarrow> Inr JUndefined)"

text \<open>
  The conversion to a string that a template literal and string concatenation apply.
  An array joins its elements with commas, \<open>undefined\<close> and \<open>null\<close> elements giving the
  empty string. A parsed object prints as \<open>[object Object]\<close>, unless it has an own
  property \<open>toString\<close>: that is data, not a function, and the conversion throws.
\<close>

definition int_to_string :: "int \<Rightarrow> string" where
  "int_to_string i =
     (if i < 0 then CHR ''-'' # nat_to_string (nat (- i)) else nat_to_string (nat i))"

fun js_to_string :: "jsval \<Rightarrow> js_error + string"
  and join_elements :: "jsval list \<Rightarrow> js_error + string" where
  "js_to_string JUndefined = Inr ''undefined''"
| "js_to_string JNull = Inr ''null''"
| "js_to_string (JBool b) = Inr (if b then ''true'' else ''false'')"
| "js_to_string (JNum i) = Inr (int_to_string i)"
| "js_to_string JNaN = Inr ''NaN''"
| "js_to_string (JStr s) = Inr s"
| "js_to_string (JArr xs) = join_elements xs"
| "js_to_string (JObj kvs) =
     (if ''toString'' \<in> fst ` set kvs then Inl TypeError else Inr ''[object Object]'')"
| "join_elements [] = Inr []"
| "join_elements (x # xs) =
     (case (if x = JUndefined \<or> x = JNull then Inr [] else js_to_string x) of
        Inl e \<Rightarrow> Inl e
      | Inr a \<Rightarrow>
          (if xs = [] then Inr a
           else (case join_elements xs of
                   Inl e \<Rightarrow> Inl e
                 | Inr b \<Rightarrow> Inr (a @ '','' @ b))))"

text \<open>
  \<open>parseInt\<close> with no radix: leading white space is skipped, a sign is read, a prefix
  \<open>0x\<close> or \<open>0X\<close> selects base 16, and the longest run of digits is converted; with no
  digit the result is \<open>NaN\<close>. The argument is converted to a string first.
\<close>

definition is_white_space :: "char \<Rightarrow> bool" where
  "is_white_space c = ((of_char c :: nat) \<in> {9, 10, 11, 12, 13, 32, 160})"

definition digit_value :: "char \<Rightarrow> nat option" where
  "digit_value c =
     (let n = (of_char c :: nat) in
      if 48 \<le> n \<and> n \<le> 57 then Some (n - 48)
      else if 97 \<le> n \<and> n \<le> 122 then Some (n - 87)
      else if 65 \<le> n \<and> n \<le> 90 then Some (n - 55)
      else None)"

definition is_digit :: "nat \<Rightarrow> char \<Rightarrow> bool" where
  "is_digit radix c = (case digit_value c of Some d \<Rightarrow> d < radix | None \<Rightarrow> False)"

definition digits_value :: "nat \<Rightarrow> string \<Rightarrow> int" where
  "digits_value radix ds = foldl (\<lambda>acc c. acc * int radix + int (the (digit_value c))) 0 ds"

definition parseInt_string :: "string \<Rightarrow> jsval" where
  "parseInt_string input =
     (let s = dropWhile is_white_space input;
          negative = (s \<noteq> [] \<and> hd s = CHR ''-'');
          s = (if s \<noteq> [] \<and> (hd s = CHR ''+'' \<or> hd s = CHR ''-'') then tl s else s);
          hex = (prefix ''0x'' s \<or> prefix ''0X'' s);
          radix = (if hex then 16 else 10);
          s = (if hex then drop 2 s else s);
          z = takeWhile (is_digit radix) s
      in if z = [] then JNaN
         else JNum ((if negative then - 1 else 1) * digits_value radix z))"

definition parseInt :: "jsval \<Rightarrow> js_error + jsval" where
  "parseInt v = (case js_to_string v of Inl e \<Rightarrow> Inl e | Inr s \<Rightarrow> Inr (parseInt_string s))"

text \<open>
  \<open>String.prototype.replace\<close> with a string pattern replaces the first occurrence only.
  The method exists on strings alone: calling it on any other value throws a TypeError.
\<close>

fun replace_first :: "string \<Rightarrow> string \<Rightarrow> string \<Rightarrow> string" where
  "replace_first pat rep [] = (if pat = [] then rep else [])"
| "replace_first pat rep (c # cs) =
     (if prefix pat (c # cs) then rep @ drop (length pat) (c # cs)
      else c # replace_first pat rep cs)"

definition call_replace :: "jsval \<Rightarrow> string \<Rightarrow> string \<Rightarrow> js_error + jsval" where
  "call_replace v pat rep =
     (case v of JStr s \<Rightarrow> Inr (JStr (replace_first pat rep s)) | _ \<Rightarrow> Inl TypeError)"

section \<open>Regular expressions\<close>

text \<open>
  The three patterns of \<open>parseSearchText\<close> use literals, character ranges, sequence,
  alternation, a greedy optional group, a greedy repetition of a character range and
  capture groups. Matching is backtracking with continuations, as ECMAScript defines it:
  a matcher takes what must match after it, tries its alternatives in priority order
  and commits to the first one whose continuation succeeds.
\<close>

datatype regex =
    Lit string
  | Class char char
  | Seq regex regex
  | Alt regex regex
  | Opt regex
  | Plus_class char char
  | Group nat regex

type_synonym captures = "nat \<rightharpoonup> string"
type_synonym mstate = "string \<times> captures"
type_synonym continuation = "mstate \<Rightarrow> mstate option"

definition in_class :: "char \<Rightarrow> char \<Rightarrow> char \<Rightarrow> bool" where
  "in_class lo hi c = ((of_char lo :: nat) \<le> of_char c \<and> (of_char c :: nat) \<le> of_char hi)"

fun star_class :: "char \<Rightarrow> char \<Rightarrow> continuation \<Rightarrow> string \<Rightarrow> captures \<Rightarrow> mstate option" where
  "star_class lo hi k [] cs = k ([], cs)"
| "star_class lo hi k (x # xs) cs =
     (if in_class lo hi x
      then (case star_class lo hi k xs cs of
              Some r \<Rightarrow> Some r
            | None \<Rightarrow> k (x # xs, cs))
      else k (x # xs, cs))"

primrec matcher :: "regex \<Rightarrow> continuation \<Rightarrow> mstate \<Rightarrow> mstate option" where
  "matcher (Lit w) k st =
     (if prefix w (fst st) then k (drop (length w) (fst st), snd st) else None)"
| "matcher (Class lo hi) k st =
     (case fst st of
        [] \<Rightarrow> None
      | x # xs \<Rightarrow> if in_class lo hi x then k (xs, snd st) else None)"
| "matcher (Seq a b) k st = matcher a (matcher b k) st"
| "matcher (Alt a b) k st =
     (case matcher a k st of Some r \<Rightarrow> Some r | None \<Rightarrow> matcher b k st)"
| "matcher (Opt a) k st =
     (case matcher a k st of Some r \<Rightarrow> Some r | None \<Rightarrow> k st)"
| "matcher (Plus_class lo hi) k st =
     (case fst st of
        [] \<Rightarrow> None
      | x # xs \<Rightarrow> if in_class lo hi x then star_class lo hi k xs (snd st) else None)"
| "matcher (Group n a) k st =
     matcher a
       (\<lambda>st'. k (fst st',
                 (snd st')(n \<mapsto> take (length (fst st) - length (fst st')) (fst st))))
       st"

text \<open>
  \<open>String.prototype.match\<close> with a pattern that has no flags: the match that starts
  leftmost, as the matched text and the captures, or \<open>null\<close>.
\<close>

fun str_match :: "regex \<Rightarrow> string \<Rightarrow> (string \<times> captures) option" where
  "str_match r [] =
     (case matcher r Some ([], Map.empty) of
        Some st \<Rightarrow> Some ([], snd st)
      | None \<Rightarrow> None)"
| "str_match r (x # xs) =
     (case matcher r Some (x # xs, Map.empty) of
        Some st \<Rightarrow> Some (take (length (x # xs) - length (fst st)) (x # xs), snd st)
      | None \<Rightarrow> str_match r xs)"

text \<open>An element of the match array: a group that did not take part is \<open>undefined\<close>.\<close>

definition match_group :: "string \<times> captures \<Rightarrow> nat \<Rightarrow> jsval" where
  "match_group m n =
     (if n = 0 then JStr (fst m)
      else (case snd m n of Some s \<Rightarrow> JStr s | None \<Rightarrow> JUndefined))"

text \<open>
  \<^verbatim>\<open>
  const chromposPattern = /(chr)?([1-9][0-9]?|X|Y|MT):([1-9][0-9]+)/;
  const rangePattern = /(chr)?([1-9][0-9]?|X|Y|MT):([1-9][0-9]+)-([1-9][0-9]+)/;
  const rsPattern = /(rs[1-9][0-9]+)/;
  \<close>
\<close>

definition chromosome :: regex where
  "chromosome =
     Alt (Seq (Class CHR ''1'' CHR ''9'') (Opt (Class CHR ''0'' CHR ''9'')))
       (Alt (Lit ''X'') (Alt (Lit ''Y'') (Lit ''MT'')))"

definition number :: regex where
  "number = Seq (Class CHR ''1'' CHR ''9'') (Plus_class CHR ''0'' CHR ''9'')"

definition chromposPattern :: regex where
  "chromposPattern =
     Seq (Opt (Group 1 (Lit ''chr'')))
       (Seq (Group 2 chromosome) (Seq (Lit '':'') (Group 3 number)))"

definition rangePattern :: regex where
  "rangePattern =
     Seq (Opt (Group 1 (Lit ''chr'')))
       (Seq (Group 2 chromosome)
         (Seq (Lit '':'') (Seq (Group 3 number) (Seq (Lit ''-'') (Group 4 number)))))"

definition rsPattern :: regex where
  "rsPattern = Group 1 (Seq (Lit ''rs'') number)"

section \<open>Promises, the network and the console\<close>

text \<open>
  A promise is modelled by how it settles. What the code does to the world while the
  chain runs is threaded explicitly: every \<open>fetch\<close> appends its URL to \<open>calls\<close>, every
  \<open>console.log\<close> appends an entry to \<open>console\<close>. The network is a parameter: what each
  URL answers.
\<close>

datatype 'a promise = Fulfilled 'a | Rejected js_error | Pending

record response =
  ok :: bool
  statusText :: string
  body :: "jsval option"

datatype fetch_outcome = Never_settles | Network_failure | Responds response

type_synonym network = "string \<Rightarrow> fetch_outcome"

datatype log_entry =
    Omnisearch_error js_error
  | Error_status js_error
  | Unable_best_variant string

record world =
  calls :: "string list"
  console :: "log_entry list"

type_synonym 'a async = "world \<Rightarrow> 'a promise \<times> world"

definition resolve :: "'a \<Rightarrow> 'a async" where
  "resolve v w = (Fulfilled v, w)"

definition reject :: "js_error \<Rightarrow> 'a async" where
  "reject e w = (Rejected e, w)"

text \<open>A callback that returns a value or throws settles the promise of its \<open>then\<close>.\<close>

definition settle :: "js_error + 'a \<Rightarrow> 'a async" where
  "settle r = (case r of Inl e \<Rightarrow> reject e | Inr v \<Rightarrow> resolve v)"

text \<open>
  \<open>p.then(f)\<close> runs \<open>f\<close> on the value of a fulfilled \<open>p\<close> and passes a rejection on;
  \<open>p.catch(h)\<close> runs \<open>h\<close> on the reason of a rejected \<open>p\<close> and passes a value on.
\<close>

definition then_do :: "'a async \<Rightarrow> ('a \<Rightarrow> 'b async) \<Rightarrow> 'b async" where
  "then_do p f w =
     (case p w of
        (Fulfilled v, w') \<Rightarrow> f v w'
      | (Rejected e, w') \<Rightarrow> (Rejected e, w')
      | (Pending, w') \<Rightarrow> (Pending, w'))"

definition catch_do :: "'a async \<Rightarrow> (js_error \<Rightarrow> 'a async) \<Rightarrow> 'a async" where
  "catch_do p h w =
     (case p w of
        (Fulfilled v, w') \<Rightarrow> (Fulfilled v, w')
      | (Rejected e, w') \<Rightarrow> h e w'
      | (Pending, w') \<Rightarrow> (Pending, w'))"

definition console_log :: "log_entry \<Rightarrow> world \<Rightarrow> world" where
  "console_log entry w = w\<lparr>console := console w @ [entry]\<rparr>"

definition fetch :: "network \<Rightarrow> string \<Rightarrow> response async" where
  "fetch net url w =
     ((case net url of
         Never_settles \<Rightarrow> Pending
       | Network_failure \<Rightarrow> Rejected FetchFailed
       | Responds r \<Rightarrow> Fulfilled r),
      w\<lparr>calls := calls w @ [url]\<rparr>)"

text \<open>\<open>response.json()\<close> rejects when the body is not JSON.\<close>

definition response_json :: "response \<Rightarrow> jsval async" where
  "response_json r = (case body r of None \<Rightarrow> reject SyntaxError | Some v \<Rightarrow> resolve v)"

section \<open>The lookups (src/lz-helpers.js, getOmniSearch and getBestVar)\<close>

text \<open>
  \<^verbatim>\<open>
  function failureCallback(error) {
      console.log('Error status: ' + error);
  }
  function handleErrors(response) {
      if (!response.ok) {
          throw Error(response.statusText);
      }
      return response;
  }
  \<close>
\<close>

definition failureCallback :: "js_error \<Rightarrow> jsval async" where
  "failureCallback error w = (Fulfilled JUndefined, console_log (Error_status error) w)"

definition handleErrors :: "response \<Rightarrow> js_error + response" where
  "handleErrors r = (if \<not> ok r then Inl (Error (statusText r)) else Inr r)"

text \<open>
  \<^verbatim>\<open>
  function getOmniSearch(searchText) {
      const omniurl = `https://portaldev.sph.umich.edu/api/v1/annotation/omnisearch/?q=${searchText}&build=GRCh38`;
      var data = fetch(omniurl)
          .then(handleErrors)
          .then((response) => response.json())
          .then((myJson) => myJson.data[0])
          .catch(function(error) {
              console.log('Omnisearch error, status code: ' + error);
              return;
          });
      return data;
  }
  \<close>
\<close>

definition omniurl :: "string \<Rightarrow> string" where
  "omniurl searchText =
     ''https://portaldev.sph.umich.edu/api/v1/annotation/omnisearch/?q='' @ searchText
       @ ''&build=GRCh38''"

definition getOmniSearch :: "network \<Rightarrow> string \<Rightarrow> jsval async" where
  "getOmniSearch net searchText =
     catch_do
       (then_do
         (then_do
           (then_do (fetch net (omniurl searchText)) (\<lambda>r. settle (handleErrors r)))
           response_json)
         (\<lambda>myJson. settle
            (case get_prop myJson ''data'' of
               Inl e \<Rightarrow> Inl e
             | Inr d \<Rightarrow> get_index0 d)))
       (\<lambda>error w. (Fulfilled JUndefined, console_log (Omnisearch_error error) w))"

text \<open>
  \<^verbatim>\<open>
  function getBestVar(symbol) {
      const bestVarURL = `/api/gene/${symbol}/bestvar/`;
      var data = fetch(bestVarURL)
          .then(handleErrors)
          .then((response) => response.json())
          .then((resp) => resp.data)
          .catch(failureCallback);
      return data;
  }
  \<close>
  The template literal converts \<open>symbol\<close> to a string before any promise exists: when
  that throws, \<open>getBestVar\<close> itself throws (\<open>Inl\<close>) and returns no promise.
\<close>

definition bestVarURL :: "string \<Rightarrow> string" where
  "bestVarURL symbol = ''/api/gene/'' @ symbol @ ''/bestvar/''"

definition getBestVar :: "network \<Rightarrow> jsval \<Rightarrow> js_error + jsval async" where
  "getBestVar net symbol =
     (case js_to_string symbol of
        Inl e \<Rightarrow> Inl e
      | Inr s \<Rightarrow>
          Inr (catch_do
                (then_do
                  (then_do
                    (then_do (fetch net (bestVarURL s)) (\<lambda>r. settle (handleErrors r)))
                    response_json)
                  (\<lambda>resp. settle (get_prop resp ''data'')))
                failureCallback))"

section \<open>The search text parser (src/lz-helpers.js, parseSearchText)\<close>

text \<open>The test \<open>cMatch !== null && searchText === cMatch[0]\<close>.\<close>

definition whole_match :: "(string \<times> captures) option \<Rightarrow> string \<Rightarrow> bool" where
  "whole_match m searchText =
     (case m of None \<Rightarrow> False | Some a \<Rightarrow> JStr searchText = match_group a 0)"

text \<open>
  \<open>parseInt\<close> of a match group. A group is a string or \<open>undefined\<close>, whose conversion
  to a string cannot throw, so this call always returns a number or \<open>NaN\<close>.
\<close>

definition parseInt_group :: "jsval \<Rightarrow> jsval" where
  "parseInt_group g = (case parseInt g of Inl e \<Rightarrow> JNaN | Inr n \<Rightarrow> n)"

text \<open>The object literal \<open>{type: t, chrom, start, end}\<close>.\<close>

definition location :: "string \<Rightarrow> jsval \<Rightarrow> jsval \<Rightarrow> jsval \<Rightarrow> jsval" where
  "location t chrom start end =
     JObj [(''type'', JStr t), (''chrom'', chrom), (''start'', start), (''end'', end)]"

text \<open>
  The callback of the rs-number branch:
  \<^verbatim>\<open>
  function(result) {
      var varData = result;
      const chrom = varData.chrom;
      const start = varData.start;
      const end = varData.end;
      var returnStatus = {type: 'variant', chrom, start, end};
      return returnStatus;
  }
  \<close>
\<close>

definition rs_result :: "jsval \<Rightarrow> js_error + jsval" where
  "rs_result result =
     (case get_prop result ''chrom'' of
        Inl e \<Rightarrow> Inl e
      | Inr chrom \<Rightarrow>
          (case get_prop result ''start'' of
             Inl e \<Rightarrow> Inl e
           | Inr start \<Rightarrow>
               (case get_prop result ''end'' of
                  Inl e \<Rightarrow> Inl e
                | Inr end \<Rightarrow> Inr (location ''variant'' chrom start end))))"

text \<open>
  The callbacks of the gene branch:
  \<^verbatim>\<open>
  function(result) {
      if (result.gene_id === undefined) {
          return;
      }
      else {
          return result.gene_id;
      }
  }
  \<close>
  \<^verbatim>\<open>
  function(result) {
      var pos = parseInt(result.pos);
      var chrom = result.chrom.replace('chr', '');
      return {type: 'variant', chrom, start: pos, end: pos};
  }
  \<close>
\<close>

definition pass_gene_id :: "jsval \<Rightarrow> js_error + jsval" where
  "pass_gene_id result =
     (case get_prop result ''gene_id'' of
        Inl e \<Rightarrow> Inl e
      | Inr g \<Rightarrow> if g = JUndefined then Inr JUndefined else Inr g)"

definition best_variant_result :: "jsval \<Rightarrow> js_error + jsval" where
  "best_variant_result result =
     (case get_prop result ''pos'' of
        Inl e \<Rightarrow> Inl e
      | Inr p \<Rightarrow>
          (case parseInt p of
             Inl e \<Rightarrow> Inl e
           | Inr pos \<Rightarrow>
               (case get_prop result ''chrom'' of
                  Inl e \<Rightarrow> Inl e
                | Inr c \<Rightarrow>
                    (case call_replace c ''chr'' [] of
                       Inl e \<Rightarrow> Inl e
                     | Inr chrom \<Rightarrow> Inr (location ''variant'' chrom pos pos)))))"

text \<open>
  \<^verbatim>\<open>
  function(gene_id) {
      var varData = getBestVar(gene_id)
          .then(function(result) { ... })
          .catch(function() {
              console.log('Unable to the best variant for the gene "' + gene_id + '"');
          });
      return varData;
  }
  \<close>
  The callback runs whatever the first callback returned, \<open>undefined\<close> included. The
  concatenation in the handler converts \<open>gene_id\<close> to a string, which may throw.
\<close>

definition best_variant_for :: "network \<Rightarrow> jsval \<Rightarrow> jsval async" where
  "best_variant_for net gene_id =
     (case getBestVar net gene_id of
        Inl e \<Rightarrow> reject e
      | Inr p \<Rightarrow>
          catch_do
            (then_do p (\<lambda>result. settle (best_variant_result result)))
            (\<lambda>_ w. case js_to_string gene_id of
                      Inl e \<Rightarrow> (Rejected e, w)
                    | Inr s \<Rightarrow> (Fulfilled JUndefined, console_log (Unable_best_variant s) w)))"

text \<open>
  \<open>parseSearchText\<close>: the three patterns are matched anywhere in the text, and a branch
  is taken when the leftmost match is the whole text; the rs-number branch makes one
  lookup, the last branch two. Inside a taken branch the match is not \<open>null\<close>
  (\<open>whole_match\<close> has tested it), so \<open>the\<close> reads the match array that exists.
  Nothing in the function throws before a promise is returned.
\<close>

definition parseSearchText :: "network \<Rightarrow> string \<Rightarrow> jsval async" where
  "parseSearchText net searchText =
     (let cMatch = str_match chromposPattern searchText;
          cMatchRange = str_match rangePattern searchText;
          cMatchRS = str_match rsPattern searchText
      in if whole_match cMatch searchText then
           (let chrom = match_group (the cMatch) 2;
                pos = parseInt_group (match_group (the cMatch) 3)
            in resolve (location ''variant'' chrom pos pos))
         else if whole_match cMatchRange searchText then
           (let chrom = match_group (the cMatchRange) 2;
                start = parseInt_group (match_group (the cMatchRange) 3);
                end = parseInt_group (match_group (the cMatchRange) 4)
            in resolve (location ''range'' chrom start end))
         else if whole_match cMatchRS searchText then
           catch_do
             (then_do (getOmniSearch net searchText) (\<lambda>result. settle (rs_result result)))
             failureCallback
         else
           catch_do
             (then_do
               (then_do (getOmniSearch net searchText) (\<lambda>result. settle (pass_gene_id result)))
               (best_variant_for net))
             failureCallback)"

section \<open>Vocabulary for the statements\<close>

text \<open>
  The shapes of the claims' patterns, written out: a chromosome token is
  \<open>[1-9][0-9]?\<close>, \<open>X\<close>, \<open>Y\<close> or \<open>MT\<close>; a position is \<open>[1-9][0-9]+\<close>.
\<close>

definition chromosome_token :: "string \<Rightarrow> bool" where
  "chromosome_token t =
     (case t of
        [a] \<Rightarrow> in_class CHR ''1'' CHR ''9'' a \<or> a = CHR ''X'' \<or> a = CHR ''Y''
      | [a, b] \<Rightarrow>
          (in_class CHR ''1'' CHR ''9'' a \<and> in_class CHR ''0'' CHR ''9'' b)
          \<or> (a = CHR ''M'' \<and> b = CHR ''T'')
      | _ \<Rightarrow> False)"

definition position_digits :: "string \<Rightarrow> bool" where
  "position_digits ds =
     (case ds of
        d # d' # rest \<Rightarrow>
          in_class CHR ''1'' CHR ''9'' d \<and> list_all (in_class CHR ''0'' CHR ''9'') (d' # rest)
      | _ \<Rightarrow> False)"

text \<open>What may follow a run of digits that a greedy \<open>[0-9]+\<close> has taken whole.\<close>

definition stops_digits :: "string \<Rightarrow> bool" where
  "stops_digits rest = (case rest of [] \<Rightarrow> True | c # _ \<Rightarrow> \<not> in_class CHR ''0'' CHR ''9'' c)"

text \<open>Group 1 after the optional prefix.\<close>

definition prefix_captures :: "string \<Rightarrow> captures" where
  "prefix_captures pre = (if pre = [] then Map.empty else [1 \<mapsto> ''chr''])"

text \<open>
  The anchored pattern \<open>^r$\<close> of the claims: the matcher of \<open>r\<close> started at the
  first character and continued by the assertion that the input has ended. The result
  lists the groups 1 to 4.
\<close>

definition end_of_input :: continuation where
  "end_of_input st = (if fst st = [] then Some st else None)"

definition full_match :: "regex \<Rightarrow> string \<Rightarrow> string option list option" where
  "full_match r s =
     (case matcher r end_of_input (s, Map.empty) of
        None \<Rightarrow> None
      | Some st \<Rightarrow> Some (map (snd st) [1, 2, 3, 4]))"

text \<open>The branch of the \<open>if\<close> chain of \<open>parseSearchText\<close> that a text takes.\<close>

datatype branch = Position | Range | RsNumber | GeneTerm

definition branch_of :: "string \<Rightarrow> branch" where
  "branch_of searchText =
     (if whole_match (str_match chromposPattern searchText) searchText then Position
      else if whole_match (str_match rangePattern searchText) searchText then Range
      else if whole_match (str_match rsPattern searchText) searchText then RsNumber
      else GeneTerm)"

text \<open>
  A mocked network: the listed URLs answer 200 with the given JSON, every other URL
  answers 404 with a body that is not JSON.
\<close>

definition start_world :: world where
  "start_world = \<lparr>calls = [], console = []\<rparr>"

definition respond_ok :: "jsval \<Rightarrow> fetch_outcome" where
  "respond_ok v = Responds \<lparr>ok = True, statusText = ''OK'', body = Some v\<rparr>"

definition not_found :: fetch_outcome where
  "not_found = Responds \<lparr>ok = False, statusText = ''Not Found'', body = None\<rparr>"

definition mock_network :: "(string \<times> jsval) list \<Rightarrow> network" where
  "mock_network table url =
     (case map_of table url of Some v \<Rightarrow> respond_ok v | None \<Rightarrow> not_found)"



definition ranked_value :: "string \<Rightarrow> qtl_record \<Rightarrow> rat" where
  "ranked_value field r =
     (if field = ''log_pvalue'' then log_pvalue r
      else if field = ''beta'' then \<bar>beta r\<bar>
      else pip r)"





section \<open>Properties of the suffix lookup\<close>

lemma endsWith_iff_suffix: "endsWith s t \<longleftrightarrow> suffix t s"
proof
  assume "endsWith s t"
  then have "s = take (length s - length t) s @ t"
    by (metis append_take_drop_id endsWith_def)
  then show "suffix t s"
    by (metis suffixI)
next
  assume "suffix t s"
  then obtain p where "s = p @ t"
    by (auto simp: suffix_def)
  then show "endsWith s t"
    by (simp add: endsWith_def)
qed

lemma find_as_filter:
  "List.find P xs = (case filter P xs of [] \<Rightarrow> None | x # _ \<Rightarrow> Some x)"
  by (induction xs) auto

text \<open>
  Claim C9. On an object, \<open>retrieveBySuffix\<close> always returns a value and never throws:
  the value of the first property, in enumeration order, whose name ends with the
  suffix, and \<open>null\<close> (not \<open>undefined\<close>) when no name ends with it.
\<close>

theorem retrieveBySuffix_first_match_or_null:
  "retrieveBySuffix (JObj kvs) suf =
     Inr (case filter (\<lambda>kv. suffix suf (fst kv)) kvs of
            [] \<Rightarrow> JNull
          | kv # _ \<Rightarrow> snd kv)"
  by (simp add: retrieveBySuffix_def object_entries_def find_as_filter endsWith_iff_suffix
      split: list.split)

section \<open>The matcher on the shapes of the claims\<close>

lemma star_class_greedy:
  assumes "list_all (in_class lo hi) ds"
    and "case rest of [] \<Rightarrow> True | c # _ \<Rightarrow> \<not> in_class lo hi c"
    and "k (rest, cs) = Some r"
  shows "star_class lo hi k (ds @ rest) cs = Some r"
  using assms
proof (induction ds)
  case Nil
  then show ?case by (cases rest) auto
next
  case (Cons d ds)
  then show ?case by simp
qed

lemma matcher_number:
  assumes "position_digits ds" and "stops_digits rest" and "k (rest, cs) = Some r"
  shows "matcher number k (ds @ rest, cs) = Some r"
proof -
  from assms(1) obtain d ds' where ds: "ds = d # ds'" "ds' \<noteq> []"
    "in_class CHR ''1'' CHR ''9'' d" "list_all (in_class CHR ''0'' CHR ''9'') ds'"
    by (auto simp: position_digits_def split: list.splits)
  from ds(2) obtain e es where es: "ds' = e # es" by (cases ds') auto
  have "star_class CHR ''0'' CHR ''9'' k (es @ rest) cs = Some r"
    using ds(4) es assms(2,3) by (intro star_class_greedy) (auto simp: stops_digits_def)
  then show ?thesis
    using ds es by (simp add: number_def)
qed

lemma matcher_Group:
  assumes "\<And>k' r'. k' (rest, cs) = Some r' \<Longrightarrow> matcher a k' (tok @ rest, cs) = Some r'"
    and "k (rest, cs(n \<mapsto> tok)) = Some r"
  shows "matcher (Group n a) k (tok @ rest, cs) = Some r"
  using assms(2) by (simp add: assms(1))

lemma not_in_class:
  "\<not> in_class CHR ''0'' CHR ''9'' CHR '':''"
  "\<not> in_class CHR ''0'' CHR ''9'' CHR ''-''"
  "\<not> in_class CHR ''1'' CHR ''9'' CHR ''X''"
  "\<not> in_class CHR ''1'' CHR ''9'' CHR ''Y''"
  "\<not> in_class CHR ''1'' CHR ''9'' CHR ''M''"
  by (simp_all add: in_class_def)

lemma matcher_chromosome:
  assumes "chromosome_token tok" and "k (CHR '':'' # rest, cs) = Some r"
  shows "matcher chromosome k (tok @ CHR '':'' # rest, cs) = Some r"
  using assms
  by (auto simp: chromosome_token_def chromosome_def not_in_class split: list.splits)

lemma chromosome_token_no_chr: "chromosome_token tok \<Longrightarrow> \<not> prefix ''chr'' (tok @ s)"
  by (auto simp: chromosome_token_def in_class_def split: list.splits)

lemma matcher_opt_chr:
  assumes "pre = [] \<or> pre = ''chr''" and "chromosome_token tok"
    and "k (tok @ s, if pre = [] then cs else cs(1 \<mapsto> ''chr'')) = Some r"
  shows "matcher (Opt (Group 1 (Lit ''chr''))) k (pre @ tok @ s, cs) = Some r"
  using assms chromosome_token_no_chr[of tok s]
  by auto

lemma str_match_unfold:
  "str_match r s =
     (case matcher r Some (s, Map.empty) of
        Some st \<Rightarrow> Some (take (length s - length (fst st)) s, snd st)
      | None \<Rightarrow> (case s of [] \<Rightarrow> None | _ # xs \<Rightarrow> str_match r xs))"
  by (cases s) (auto split: option.splits)

lemma matcher_chromposPattern:
  assumes "pre = [] \<or> pre = ''chr''" and "chromosome_token tok" and "position_digits ds"
    and "stops_digits rest"
    and "k (rest, (prefix_captures pre)(2 \<mapsto> tok, 3 \<mapsto> ds)) = Some r"
  shows "matcher chromposPattern k (pre @ tok @ CHR '':'' # ds @ rest, Map.empty) = Some r"
proof -
  let ?c1 = "prefix_captures pre"
  let ?k3 = "matcher (Group 3 number) k"
  let ?k2 = "matcher (Lit '':'') ?k3"
  let ?k1 = "matcher (Group 2 chromosome) ?k2"
  have 3: "?k3 (ds @ rest, ?c1(2 \<mapsto> tok)) = Some r"
    using assms(3,4,5) by (intro matcher_Group matcher_number) auto
  then have 2: "?k2 (CHR '':'' # ds @ rest, ?c1(2 \<mapsto> tok)) = Some r"
    by simp
  have 1: "?k1 (tok @ CHR '':'' # ds @ rest, ?c1) = Some r"
    using assms(2) 2 by (intro matcher_Group matcher_chromosome) auto
  have "matcher (Opt (Group 1 (Lit ''chr''))) ?k1 (pre @ tok @ CHR '':'' # ds @ rest, Map.empty)
          = Some r"
    using assms(1,2) 1 by (intro matcher_opt_chr) (auto simp: prefix_captures_def)
  then show ?thesis
    unfolding chromposPattern_def matcher.simps(3) .
qed

lemma matcher_rangePattern:
  assumes "pre = [] \<or> pre = ''chr''" and "chromosome_token tok" and "position_digits ds"
    and "position_digits es" and "stops_digits rest"
    and "k (rest, (prefix_captures pre)(2 \<mapsto> tok, 3 \<mapsto> ds, 4 \<mapsto> es)) = Some r"
  shows "matcher rangePattern k (pre @ tok @ CHR '':'' # ds @ CHR ''-'' # es @ rest, Map.empty)
           = Some r"
proof -
  let ?c1 = "prefix_captures pre"
  let ?k5 = "matcher (Group 4 number) k"
  let ?k4 = "matcher (Lit ''-'') ?k5"
  let ?k3 = "matcher (Group 3 number) ?k4"
  let ?k2 = "matcher (Lit '':'') ?k3"
  let ?k1 = "matcher (Group 2 chromosome) ?k2"
  have "?k5 (es @ rest, ?c1(2 \<mapsto> tok, 3 \<mapsto> ds)) = Some r"
    using assms(4,5,6) by (intro matcher_Group matcher_number) auto
  then have 4: "?k4 (CHR ''-'' # es @ rest, ?c1(2 \<mapsto> tok, 3 \<mapsto> ds)) = Some r"
    by simp
  have 3: "?k3 (ds @ CHR ''-'' # es @ rest, ?c1(2 \<mapsto> tok)) = Some r"
    using assms(3) 4
    by (intro matcher_Group matcher_number) (auto simp: stops_digits_def not_in_class)
  then have 2: "?k2 (CHR '':'' # ds @ CHR ''-'' # es @ rest, ?c1(2 \<mapsto> tok)) = Some r"
    by simp
  have 1: "?k1 (tok @ CHR '':'' # ds @ CHR ''-'' # es @ rest, ?c1) = Some r"
    using assms(2) 2 by (intro matcher_Group matcher_chromosome) auto
  have "matcher (Opt (Group 1 (Lit ''chr''))) ?k1
          (pre @ tok @ CHR '':'' # ds @ CHR ''-'' # es @ rest, Map.empty) = Some r"
    using assms(1,2) 1 by (intro matcher_opt_chr) (auto simp: prefix_captures_def)
  then show ?thesis
    unfolding rangePattern_def matcher.simps(3) .
qed

text \<open>
  On a position followed by something that is not a digit, the leftmost match of the
  position pattern starts at the first character and stops where the digits stop.
\<close>

lemma str_match_chrompos:
  assumes "pre = [] \<or> pre = ''chr''" and "chromosome_token tok" and "position_digits ds"
    and "stops_digits rest"
  shows "str_match chromposPattern (pre @ tok @ CHR '':'' # ds @ rest) =
           Some (pre @ tok @ CHR '':'' # ds, (prefix_captures pre)(2 \<mapsto> tok, 3 \<mapsto> ds))"
  by (subst str_match_unfold) (simp add: matcher_chromposPattern[OF assms, where k = Some])


lemma parseInt_group_JStr: "parseInt_group (JStr s) = parseInt_string s"
  by (simp add: parseInt_group_def parseInt_def)



text \<open>
  Conversely, whatever the continuation, a successful match of a pattern splits the
  text into the shapes above.
\<close>

lemma star_class_inv:
  "star_class lo hi k s cs = Some r \<Longrightarrow>
   \<exists>ds rest. s = ds @ rest \<and> list_all (in_class lo hi) ds \<and> k (rest, cs) = Some r"
proof (induction s)
  case Nil
  then show ?case by simp
next
  case (Cons x xs)
  show ?case
  proof (cases "in_class lo hi x \<and> star_class lo hi k xs cs \<noteq> None")
    case True
    with Cons.prems have "star_class lo hi k xs cs = Some r" by auto
    from Cons.IH[OF this] obtain ds rest
      where "xs = ds @ rest" "list_all (in_class lo hi) ds" "k (rest, cs) = Some r" by blast
    with True have "x # xs = (x # ds) @ rest \<and> list_all (in_class lo hi) (x # ds)
        \<and> k (rest, cs) = Some r" by simp
    then show ?thesis by blast
  next
    case False
    with Cons.prems have "k (x # xs, cs) = Some r"
      by (cases "star_class lo hi k xs cs") (auto split: if_splits)
    then have "x # xs = [] @ (x # xs) \<and> list_all (in_class lo hi) [] \<and> k (x # xs, cs) = Some r"
      by simp
    then show ?thesis by blast
  qed
qed

lemma number_inv:
  assumes "matcher number k (s, cs) = Some r"
  shows "\<exists>ds rest. s = ds @ rest \<and> position_digits ds \<and> k (rest, cs) = Some r"
proof -
  from assms obtain d e s' where s: "s = d # e # s'" "in_class CHR ''1'' CHR ''9'' d"
    "in_class CHR ''0'' CHR ''9'' e" "star_class CHR ''0'' CHR ''9'' k s' cs = Some r"
    by (auto simp: number_def split: list.splits if_splits)
  from star_class_inv[OF s(4)] obtain ds rest
    where "s' = ds @ rest" "list_all (in_class CHR ''0'' CHR ''9'') ds" "k (rest, cs) = Some r"
    by blast
  with s have "s = (d # e # ds) @ rest \<and> position_digits (d # e # ds) \<and> k (rest, cs) = Some r"
    by (simp add: position_digits_def)
  then show ?thesis by blast
qed

lemma chromosome_inv:
  assumes "matcher chromosome k (s, cs) = Some r"
  shows "\<exists>tok rest. s = tok @ rest \<and> chromosome_token tok \<and> k (rest, cs) = Some r"
proof -
  from assms consider
    (two) a b rest where "s = a # b # rest" "in_class CHR ''1'' CHR ''9'' a"
      "in_class CHR ''0'' CHR ''9'' b" "k (rest, cs) = Some r"
    | (one) a rest where "s = a # rest" "in_class CHR ''1'' CHR ''9'' a" "k (rest, cs) = Some r"
    | (x) rest where "s = CHR ''X'' # rest" "k (rest, cs) = Some r"
    | (y) rest where "s = CHR ''Y'' # rest" "k (rest, cs) = Some r"
    | (mt) rest where "s = CHR ''M'' # CHR ''T'' # rest" "k (rest, cs) = Some r"
    by (cases s; cases "tl s")
      (auto simp: chromosome_def split: list.splits if_splits option.splits)
  then show ?thesis
  proof cases
    case two
    then have "s = [a, b] @ rest \<and> chromosome_token [a, b] \<and> k (rest, cs) = Some r"
      by (simp add: chromosome_token_def)
    then show ?thesis by blast
  next
    case one
    then have "s = [a] @ rest \<and> chromosome_token [a] \<and> k (rest, cs) = Some r"
      by (simp add: chromosome_token_def)
    then show ?thesis by blast
  next
    case x
    then have "s = ''X'' @ rest \<and> chromosome_token ''X'' \<and> k (rest, cs) = Some r"
      by (simp add: chromosome_token_def)
    then show ?thesis by blast
  next
    case y
    then have "s = ''Y'' @ rest \<and> chromosome_token ''Y'' \<and> k (rest, cs) = Some r"
      by (simp add: chromosome_token_def)
    then show ?thesis by blast
  next
    case mt
    then have "s = ''MT'' @ rest \<and> chromosome_token ''MT'' \<and> k (rest, cs) = Some r"
      by (simp add: chromosome_token_def)
    then show ?thesis by blast
  qed
qed

lemma Group_inv:
  assumes "\<And>k' r'. matcher a k' (s, cs) = Some r' \<Longrightarrow>
             \<exists>tok rest. s = tok @ rest \<and> P tok \<and> k' (rest, cs) = Some r'"
    and "matcher (Group n a) k (s, cs) = Some r"
  shows "\<exists>tok rest. s = tok @ rest \<and> P tok \<and> k (rest, cs(n \<mapsto> tok)) = Some r"
proof -
  let ?k = "\<lambda>st'. k (fst st', (snd st')(n \<mapsto> take (length s - length (fst st')) s))"
  from assms(2) have "matcher a ?k (s, cs) = Some r" by simp
  from assms(1)[OF this] obtain tok rest
    where "s = tok @ rest" "P tok" "?k (rest, cs) = Some r" by blast
  then have "s = tok @ rest \<and> P tok \<and> k (rest, cs(n \<mapsto> tok)) = Some r" by simp
  then show ?thesis by blast
qed

lemma opt_chr_inv:
  assumes "matcher (Opt (Group 1 (Lit ''chr''))) k (s, cs) = Some r"
  shows "\<exists>pre rest. s = pre @ rest \<and> (pre = [] \<or> pre = ''chr'')
           \<and> k (rest, if pre = [] then cs else cs(1 \<mapsto> ''chr'')) = Some r"
proof -
  have plain: ?thesis if "k (s, cs) = Some r"
  proof -
    from that have "s = [] @ s \<and> (([]::string) = [] \<or> [] = ''chr'')
      \<and> k (s, if ([]::string) = [] then cs else cs(1 \<mapsto> ''chr'')) = Some r" by simp
    then show ?thesis by blast
  qed
  show ?thesis
  proof (cases "prefix ''chr'' s")
    case True
    then obtain rest where rest: "s = ''chr'' @ rest" by (auto simp: prefix_def)
    show ?thesis
    proof (cases "k (rest, cs(1 \<mapsto> ''chr''))")
      case None
      with assms rest have "k (s, cs) = Some r" by simp
      then show ?thesis by (rule plain)
    next
      case (Some r')
      with assms rest have "k (rest, cs(1 \<mapsto> ''chr'')) = Some r" by simp
      with rest have "s = ''chr'' @ rest \<and> (''chr'' = [] \<or> ''chr'' = ''chr'')
        \<and> k (rest, if ''chr'' = [] then cs else cs(1 \<mapsto> ''chr'')) = Some r" by simp
      then show ?thesis by blast
    qed
  next
    case False
    with assms have "k (s, cs) = Some r" by simp
    then show ?thesis by (rule plain)
  qed
qed

lemma Lit_inv:
  "matcher (Lit w) k (s, cs) = Some r \<Longrightarrow> \<exists>rest. s = w @ rest \<and> k (rest, cs) = Some r"
  by (auto simp: prefix_def split: if_splits)

lemma chromposPattern_inv:
  assumes "matcher chromposPattern k (s, Map.empty) = Some r"
  shows "\<exists>pre tok ds rest. s = pre @ tok @ CHR '':'' # ds @ rest
           \<and> (pre = [] \<or> pre = ''chr'') \<and> chromosome_token tok \<and> position_digits ds
           \<and> k (rest, (prefix_captures pre)(2 \<mapsto> tok, 3 \<mapsto> ds)) = Some r"
proof -
  let ?k3 = "matcher (Group 3 number) k"
  let ?k2 = "matcher (Lit '':'') ?k3"
  let ?k1 = "matcher (Group 2 chromosome) ?k2"
  from assms have "matcher (Opt (Group 1 (Lit ''chr''))) ?k1 (s, Map.empty) = Some r"
    unfolding chromposPattern_def matcher.simps(3) .
  from opt_chr_inv[OF this] obtain pre s1 where 1: "s = pre @ s1" "pre = [] \<or> pre = ''chr''"
    "?k1 (s1, prefix_captures pre) = Some r"
    unfolding prefix_captures_def by blast
  from Group_inv[where P = chromosome_token, OF chromosome_inv 1(3)] obtain tok s2
    where 2: "s1 = tok @ s2" "chromosome_token tok"
      "?k2 (s2, (prefix_captures pre)(2 \<mapsto> tok)) = Some r"
    by blast
  from Lit_inv[OF 2(3)] obtain s3 where 3: "s2 = '':'' @ s3"
    "?k3 (s3, (prefix_captures pre)(2 \<mapsto> tok)) = Some r"
    by blast
  from Group_inv[where P = position_digits, OF number_inv 3(2)] obtain ds rest
    where 4: "s3 = ds @ rest" "position_digits ds"
      "k (rest, (prefix_captures pre)(2 \<mapsto> tok, 3 \<mapsto> ds)) = Some r"
    by blast
  from 1 2 3 4 have "s = pre @ tok @ CHR '':'' # ds @ rest
           \<and> (pre = [] \<or> pre = ''chr'') \<and> chromosome_token tok \<and> position_digits ds
           \<and> k (rest, (prefix_captures pre)(2 \<mapsto> tok, 3 \<mapsto> ds)) = Some r"
    by simp
  then show ?thesis by blast
qed

lemma rangePattern_inv:
  assumes "matcher rangePattern k (s, Map.empty) = Some r"
  shows "\<exists>pre tok ds es rest. s = pre @ tok @ CHR '':'' # ds @ CHR ''-'' # es @ rest
           \<and> (pre = [] \<or> pre = ''chr'') \<and> chromosome_token tok \<and> position_digits ds
           \<and> position_digits es
           \<and> k (rest, (prefix_captures pre)(2 \<mapsto> tok, 3 \<mapsto> ds, 4 \<mapsto> es)) = Some r"
proof -
  let ?k5 = "matcher (Group 4 number) k"
  let ?k4 = "matcher (Lit ''-'') ?k5"
  let ?k3 = "matcher (Group 3 number) ?k4"
  let ?k2 = "matcher (Lit '':'') ?k3"
  let ?k1 = "matcher (Group 2 chromosome) ?k2"
  from assms have "matcher (Opt (Group 1 (Lit ''chr''))) ?k1 (s, Map.empty) = Some r"
    unfolding rangePattern_def matcher.simps(3) .
  from opt_chr_inv[OF this] obtain pre s1 where 1: "s = pre @ s1" "pre = [] \<or> pre = ''chr''"
    "?k1 (s1, prefix_captures pre) = Some r"
    unfolding prefix_captures_def by blast
  from Group_inv[where P = chromosome_token, OF chromosome_inv 1(3)] obtain tok s2
    where 2: "s1 = tok @ s2" "chromosome_token tok"
      "?k2 (s2, (prefix_captures pre)(2 \<mapsto> tok)) = Some r"
    by blast
  from Lit_inv[OF 2(3)] obtain s3 where 3: "s2 = '':'' @ s3"
    "?k3 (s3, (prefix_captures pre)(2 \<mapsto> tok)) = Some r"
    by blast
  from Group_inv[where P = position_digits, OF number_inv 3(2)] obtain ds s4
    where 4: "s3 = ds @ s4" "position_digits ds"
      "?k4 (s4, (prefix_captures pre)(2 \<mapsto> tok, 3 \<mapsto> ds)) = Some r"
    by blast
  from Lit_inv[OF 4(3)] obtain s5 where 5: "s4 = ''-'' @ s5"
    "?k5 (s5, (prefix_captures pre)(2 \<mapsto> tok, 3 \<mapsto> ds)) = Some r"
    by blast
  from Group_inv[where P = position_digits, OF number_inv 5(2)] obtain es rest
    where 6: "s5 = es @ rest" "position_digits es"
      "k (rest, (prefix_captures pre)(2 \<mapsto> tok, 3 \<mapsto> ds, 4 \<mapsto> es)) = Some r"
    by blast
  from 1 2 3 4 5 6 have "s = pre @ tok @ CHR '':'' # ds @ CHR ''-'' # es @ rest
           \<and> (pre = [] \<or> pre = ''chr'') \<and> chromosome_token tok \<and> position_digits ds
           \<and> position_digits es
           \<and> k (rest, (prefix_captures pre)(2 \<mapsto> tok, 3 \<mapsto> ds, 4 \<mapsto> es)) = Some r"
    by simp
  then show ?thesis by blast
qed

lemma full_match_chrompos:
  assumes "full_match chromposPattern s = Some gs"
  shows "\<exists>pre tok ds. s = pre @ tok @ '':'' @ ds \<and> (pre = [] \<or> pre = ''chr'')
           \<and> chromosome_token tok \<and> position_digits ds
           \<and> gs = [prefix_captures pre 1, Some tok, Some ds, None]"
proof -
  from assms obtain st where st: "matcher chromposPattern end_of_input (s, Map.empty) = Some st"
    "gs = map (snd st) [1, 2, 3, 4]"
    by (auto simp: full_match_def split: option.splits)
  from chromposPattern_inv[OF st(1)] obtain pre tok ds rest
    where d: "s = pre @ tok @ CHR '':'' # ds @ rest" "pre = [] \<or> pre = ''chr''"
      "chromosome_token tok" "position_digits ds"
      "end_of_input (rest, (prefix_captures pre)(2 \<mapsto> tok, 3 \<mapsto> ds)) = Some st"
    by blast
  from d(5) have "rest = []" "st = ([], (prefix_captures pre)(2 \<mapsto> tok, 3 \<mapsto> ds))"
    by (auto simp: end_of_input_def split: if_splits)
  with d st(2) have "s = pre @ tok @ '':'' @ ds \<and> (pre = [] \<or> pre = ''chr'')
           \<and> chromosome_token tok \<and> position_digits ds
           \<and> gs = [prefix_captures pre 1, Some tok, Some ds, None]"
    by (auto simp: prefix_captures_def)
  then show ?thesis by blast
qed

lemma full_match_range:
  assumes "full_match rangePattern s = Some gs"
  shows "\<exists>pre tok ds es. s = pre @ tok @ '':'' @ ds @ ''-'' @ es \<and> (pre = [] \<or> pre = ''chr'')
           \<and> chromosome_token tok \<and> position_digits ds \<and> position_digits es
           \<and> gs = [prefix_captures pre 1, Some tok, Some ds, Some es]"
proof -
  from assms obtain st where st: "matcher rangePattern end_of_input (s, Map.empty) = Some st"
    "gs = map (snd st) [1, 2, 3, 4]"
    by (auto simp: full_match_def split: option.splits)
  from rangePattern_inv[OF st(1)] obtain pre tok ds es rest
    where d: "s = pre @ tok @ CHR '':'' # ds @ CHR ''-'' # es @ rest" "pre = [] \<or> pre = ''chr''"
      "chromosome_token tok" "position_digits ds" "position_digits es"
      "end_of_input (rest, (prefix_captures pre)(2 \<mapsto> tok, 3 \<mapsto> ds, 4 \<mapsto> es)) = Some st"
    by blast
  from d(6) have "rest = []" "st = ([], (prefix_captures pre)(2 \<mapsto> tok, 3 \<mapsto> ds, 4 \<mapsto> es))"
    by (auto simp: end_of_input_def split: if_splits)
  with d st(2) have "s = pre @ tok @ '':'' @ ds @ ''-'' @ es \<and> (pre = [] \<or> pre = ''chr'')
           \<and> chromosome_token tok \<and> position_digits ds \<and> position_digits es
           \<and> gs = [prefix_captures pre 1, Some tok, Some ds, Some es]"
    by (auto simp: prefix_captures_def)
  then show ?thesis by blast
qed

text \<open>The anchored patterns match exactly the texts of these shapes.\<close>

lemma full_match_chrompos_iff:
  "full_match chromposPattern s \<noteq> None \<longleftrightarrow>
     (\<exists>pre tok ds. s = pre @ tok @ '':'' @ ds \<and> (pre = [] \<or> pre = ''chr'')
        \<and> chromosome_token tok \<and> position_digits ds)"
proof
  assume "full_match chromposPattern s \<noteq> None"
  then obtain gs where "full_match chromposPattern s = Some gs" by auto
  from full_match_chrompos[OF this] show "\<exists>pre tok ds. s = pre @ tok @ '':'' @ ds
      \<and> (pre = [] \<or> pre = ''chr'') \<and> chromosome_token tok \<and> position_digits ds"
    by blast
next
  assume "\<exists>pre tok ds. s = pre @ tok @ '':'' @ ds \<and> (pre = [] \<or> pre = ''chr'')
      \<and> chromosome_token tok \<and> position_digits ds"
  then obtain pre tok ds where d: "s = pre @ tok @ CHR '':'' # ds @ []" "pre = [] \<or> pre = ''chr''"
    "chromosome_token tok" "position_digits ds"
    by auto
  have "matcher chromposPattern end_of_input (s, Map.empty) =
          Some ([], (prefix_captures pre)(2 \<mapsto> tok, 3 \<mapsto> ds))"
    unfolding d(1) using d(2-4)
    by (intro matcher_chromposPattern) (auto simp: stops_digits_def end_of_input_def)
  then show "full_match chromposPattern s \<noteq> None"
    by (simp add: full_match_def)
qed

lemma full_match_range_iff:
  "full_match rangePattern s \<noteq> None \<longleftrightarrow>
     (\<exists>pre tok ds es. s = pre @ tok @ '':'' @ ds @ ''-'' @ es \<and> (pre = [] \<or> pre = ''chr'')
        \<and> chromosome_token tok \<and> position_digits ds \<and> position_digits es)"
proof
  assume "full_match rangePattern s \<noteq> None"
  then obtain gs where "full_match rangePattern s = Some gs" by auto
  from full_match_range[OF this] show "\<exists>pre tok ds es. s = pre @ tok @ '':'' @ ds @ ''-'' @ es
      \<and> (pre = [] \<or> pre = ''chr'') \<and> chromosome_token tok \<and> position_digits ds
      \<and> position_digits es"
    by blast
next
  assume "\<exists>pre tok ds es. s = pre @ tok @ '':'' @ ds @ ''-'' @ es \<and> (pre = [] \<or> pre = ''chr'')
      \<and> chromosome_token tok \<and> position_digits ds \<and> position_digits es"
  then obtain pre tok ds es where d: "s = pre @ tok @ CHR '':'' # ds @ CHR ''-'' # es @ []"
    "pre = [] \<or> pre = ''chr''" "chromosome_token tok" "position_digits ds" "position_digits es"
    by auto
  have "matcher rangePattern end_of_input (s, Map.empty) =
          Some ([], (prefix_captures pre)(2 \<mapsto> tok, 3 \<mapsto> ds, 4 \<mapsto> es))"
    unfolding d(1) using d(2-5)
    by (intro matcher_rangePattern) (auto simp: stops_digits_def end_of_input_def)
  then show "full_match rangePattern s \<noteq> None"
    by (simp add: full_match_def)
qed

section \<open>The position and range branches\<close>

lemma position_branch:
  assumes "pre = [] \<or> pre = ''chr''" and "chromosome_token tok" and "position_digits ds"
  shows "parseSearchText net (pre @ tok @ '':'' @ ds) w =
           (Fulfilled (location ''variant'' (JStr tok) (parseInt_string ds) (parseInt_string ds)),
            w)"
proof -
  have "str_match chromposPattern (pre @ tok @ CHR '':'' # ds @ []) =
          Some (pre @ tok @ CHR '':'' # ds, (prefix_captures pre)(2 \<mapsto> tok, 3 \<mapsto> ds))"
    using assms by (intro str_match_chrompos) (auto simp: stops_digits_def)
  then show ?thesis
    by (simp add: parseSearchText_def Let_def whole_match_def match_group_def
        parseInt_group_JStr resolve_def)
qed

lemma parseInt_examples:
  "parseInt_string ''101258000'' = JNum 101258000"
  "parseInt_string ''100'' = JNum 100"
  "parseInt_string ''1000'' = JNum 1000"
  "parseInt_string ''2000'' = JNum 2000"
  by code_simp+

lemma shape_examples:
  "chromosome_token ''7''" "chromosome_token ''2''" "chromosome_token ''23''"
  "position_digits ''101258000''" "position_digits ''100''"
  "position_digits ''1000''" "position_digits ''2000''"
  by code_simp+








text \<open>
  Claim C2, as stated, fails: the chromosome token of the position pattern is
  \<open>[1-9][0-9]?\<close>, which \<open>23\<close> matches, so \<open>chr23:100\<close> is a whole match of the
  position pattern and does not reach the gene-lookup branch.
\<close>

theorem chr23_matches_position_pattern:
  "whole_match (str_match chromposPattern ''chr23:100'') ''chr23:100''
   \<and> branch_of ''chr23:100'' \<noteq> GeneTerm"
  by code_simp

text \<open>
  Claim C2, amended. \<open>chr23:100\<close> takes the position branch: it resolves at once, with
  no network call and no log line, to the variant with \<open>chrom\<close> \<open>23\<close> and \<open>start\<close> and
  \<open>end\<close> \<open>100\<close>.
\<close>

theorem chr23_resolves_as_position:
  "parseSearchText net ''chr23:100'' w =
     (Fulfilled (location ''variant'' (JStr ''23'') (JNum 100) (JNum 100)), w)"
  using position_branch[of "''chr''" "''23''" "''100''" net w]
  by (simp add: shape_examples parseInt_examples)

section \<open>The lookup branches\<close>

lemma branch_examples:
  "branch_of ''rs7412'' = RsNumber"
  "branch_of ''APOE'' = GeneTerm"
  "branch_of ''zzz_not_a_gene'' = GeneTerm"
  by code_simp+

lemma parseSearchText_RsNumber:
  "branch_of s = RsNumber \<Longrightarrow>
   parseSearchText net s =
     catch_do (then_do (getOmniSearch net s) (\<lambda>result. settle (rs_result result)))
       failureCallback"
  by (simp add: branch_of_def parseSearchText_def Let_def split: if_splits)

lemma parseSearchText_GeneTerm:
  "branch_of s = GeneTerm \<Longrightarrow>
   parseSearchText net s =
     catch_do
       (then_do (then_do (getOmniSearch net s) (\<lambda>result. settle (pass_gene_id result)))
          (best_variant_for net))
       failureCallback"
  by (simp add: branch_of_def parseSearchText_def Let_def split: if_splits)

lemma getOmniSearch_ok:
  assumes "net (omniurl s) = Responds r" and "ok r"
    and "body r = Some (JObj [(''data'', JArr (x # xs))])"
  shows "getOmniSearch net s w = (Fulfilled x, w\<lparr>calls := calls w @ [omniurl s]\<rparr>)"
  using assms
  by (simp add: getOmniSearch_def catch_do_def then_do_def fetch_def settle_def handleErrors_def
      resolve_def response_json_def get_prop_def get_index0_def)


lemma mock_network_hit:
  "mock_network ((url, v) # table) url = Responds \<lparr>ok = True, statusText = ''OK'', body = Some v\<rparr>"
  by (simp add: mock_network_def respond_ok_def)

text \<open>
  Claim C3, as stated, fails: with the mocked answer the rs-number branch returns the
  \<open>chrom\<close> of the answer as it is, \<open>chr19\<close>, not \<open>19\<close>.
\<close>

theorem rs7412_keeps_chr_prefix:
  "fst (parseSearchText
         (mock_network
           [(omniurl ''rs7412'',
             JObj [(''data'', JArr [JObj [(''chrom'', JStr ''chr19''),
               (''start'', JNum 44908822), (''end'', JNum 44908822)]])])])
         ''rs7412'' start_world)
   \<noteq> Fulfilled (location ''variant'' (JStr ''19'') (JNum 44908822) (JNum 44908822))"
  by code_simp

text \<open>
  Claim C3, amended. For \<open>rs7412\<close>, when omnisearch answers
  \<open>{data:[{chrom:"chr19", start:44908822, end:44908822}]}\<close>, \<open>parseSearchText\<close> makes
  exactly one network call, the omnisearch one, logs nothing, and resolves to the variant
  with \<open>chrom\<close> \<open>chr19\<close>, prefix kept, and \<open>start\<close> and \<open>end\<close> \<open>44908822\<close>.
\<close>

theorem rs7412_resolves:
  assumes "net (omniurl ''rs7412'') = Responds r" and "ok r"
    and "body r = Some (JObj [(''data'', JArr [JObj [(''chrom'', JStr ''chr19''),
           (''start'', JNum 44908822), (''end'', JNum 44908822)]])])"
  shows "parseSearchText net ''rs7412'' w =
           (Fulfilled (location ''variant'' (JStr ''chr19'') (JNum 44908822) (JNum 44908822)),
            w\<lparr>calls := calls w @ [omniurl ''rs7412'']\<rparr>)"
  using getOmniSearch_ok[where net = net and s = "''rs7412''" and w = w, OF assms]
  by (simp add: parseSearchText_RsNumber[OF branch_examples(1)] catch_do_def then_do_def
      settle_def rs_result_def get_prop_def resolve_def)

theorem rs7412_resolves_witness:
  "parseSearchText
     (mock_network
       [(omniurl ''rs7412'',
         JObj [(''data'', JArr [JObj [(''chrom'', JStr ''chr19''),
           (''start'', JNum 44908822), (''end'', JNum 44908822)]])])])
     ''rs7412'' start_world =
   (Fulfilled (location ''variant'' (JStr ''chr19'') (JNum 44908822) (JNum 44908822)),
    \<lparr>calls = [omniurl ''rs7412''], console = []\<rparr>)"
proof -
  let ?answer = "JObj [(''data'', JArr [JObj [(''chrom'', JStr ''chr19''),
           (''start'', JNum 44908822), (''end'', JNum 44908822)]])]"
  let ?net = "mock_network [(omniurl ''rs7412'', ?answer)]"
  let ?r = "\<lparr>ok = True, statusText = ''OK'', body = Some ?answer\<rparr>"
  have a: "?net (omniurl ''rs7412'') = Responds ?r"
    by (rule mock_network_hit)
  show ?thesis
    using rs7412_resolves[where net = ?net and r = ?r and w = start_world, OF a]
    by (simp add: start_world_def)
qed




text \<open>
  Claim C1 against the code. For \<open>zzz_not_a_gene\<close>, with omnisearch answering
  \<open>{data:[{}]}\<close> and every other URL answering 404, the second callback of the gene branch
  still runs with \<open>undefined\<close>: \<open>getBestVar\<close> is called and fetches
  \<open>/api/gene/undefined/bestvar/\<close>. The result is \<open>undefined\<close>, after two network calls and
  two log lines.
\<close>

theorem gene_branch_without_gene_id:
  "parseSearchText
     (mock_network [(omniurl ''zzz_not_a_gene'', JObj [(''data'', JArr [JObj []])])])
     ''zzz_not_a_gene'' start_world =
   (Fulfilled JUndefined,
    \<lparr>calls = [omniurl ''zzz_not_a_gene'', ''/api/gene/undefined/bestvar/''],
     console = [Error_status (Error ''Not Found''), Unable_best_variant ''undefined'']\<rparr>)"
  by code_simp

text \<open>
  Whatever the network answers to it, the second call is made as soon as omnisearch
  answers with a first record that has no \<open>gene_id\<close>.
\<close>

lemma second_call_without_gene_id:
  assumes "branch_of s = GeneTerm"
    and "net (omniurl s) = Responds r" and "ok r"
    and "body r = Some (JObj [(''data'', JArr (JObj kvs # xs))])"
    and "map_of kvs ''gene_id'' = None"
  shows "calls (snd (parseSearchText net s w)) =
           calls w @ [omniurl s, ''/api/gene/undefined/bestvar/'']"
proof -
  have 1: "getOmniSearch net s w = (Fulfilled (JObj kvs), w\<lparr>calls := calls w @ [omniurl s]\<rparr>)"
    using getOmniSearch_ok[where net = net and s = s, OF assms(2-4)] .
  show ?thesis
    using 1 assms(5)
    by (auto simp: parseSearchText_GeneTerm[OF assms(1)] catch_do_def then_do_def settle_def
        pass_gene_id_def get_prop_def resolve_def reject_def best_variant_for_def getBestVar_def
        fetch_def bestVarURL_def failureCallback_def console_log_def response_json_def
        handleErrors_def best_variant_result_def
        split: fetch_outcome.splits sum.splits option.splits)
qed

section \<open>Failures of the lookups\<close>

lemma location_defined [simp]: "location t c s e \<noteq> JUndefined"
  by (simp add: location_def)




lemma best_variant_result_undefined [simp]: "best_variant_result JUndefined = Inl TypeError"
  by (simp add: best_variant_result_def get_prop_def)



lemma rs_result_undefined [simp]: "rs_result JUndefined = Inl TypeError"
  by (simp add: rs_result_def get_prop_def)

lemma pass_gene_id_undefined [simp]: "pass_gene_id JUndefined = Inl TypeError"
  by (simp add: pass_gene_id_def get_prop_def)



section \<open>Independence of earlier invocations\<close>
















section \<open>Ranking\<close>






lemma length_assign_ranks [simp]: "length (assign_ranks refs k store) = length store"
  by (induction refs arbitrary: k store) auto





lemma ranked_value_rank [simp]:
  "ranked_value field (r\<lparr>top_value_rank := k\<rparr>) = ranked_value field r"
  by (simp add: ranked_value_def)





end
